theory Spec2Isabelle
  imports Complex_Main
begin

section \<open>Tables, bundles and library behaviour\<close>

text \<open>
  The script \<^verbatim>\<open>predict_model.py\<close> is one function, \<^verbatim>\<open>predict_on_new_data\<close>, over a
  pandas data frame. A cell of the frame is a missing value (\<^verbatim>\<open>np.nan\<close>), a number
  or a text. Floating-point numbers are idealised as reals: rounding, infinities and
  overflow are outside this model.
\<close>

datatype cell = NaN | Num real | Str string

text \<open>
  A frame is its ordered column labels and its rows, each row giving the cell under every
  label; a frame is rectangular by construction. Labels are taken to be unique, as
  \<^verbatim>\<open>pd.read_excel\<close> delivers them and as the lists of the bundle name them: a frame with
  a label twice is outside this model.
\<close>

record table =
  columns :: "string list"
  rows :: "(string \<Rightarrow> cell) list"

text \<open>Every exception the run can end with.\<close>

datatype error =
    MissingFeatures "string list"  \<comment> \<open>the \<^verbatim>\<open>ValueError\<close> raised at line 39, with its list\<close>
  | ImputerError                   \<comment> \<open>\<^verbatim>\<open>ValueError\<close> of \<^verbatim>\<open>transform\<close> or of assigning its result\<close>
  | HazardModelError               \<comment> \<open>whatever \<^verbatim>\<open>predict_partial_hazard\<close> raises\<close>
  | BinLabelsError                 \<comment> \<open>\<^verbatim>\<open>ValueError\<close>: bin labels must be one fewer than the bin edges\<close>
  | EmptyQuantileError             \<comment> \<open>quantiles of no value at all\<close>
  | ConcordanceError               \<comment> \<open>whatever \<^verbatim>\<open>concordance_index\<close> raises\<close>
  | LoadError                      \<comment> \<open>\<^verbatim>\<open>joblib.load\<close> fails\<close>
  | ParseError                     \<comment> \<open>\<^verbatim>\<open>pd.read_excel\<close> fails\<close>

text \<open>
  A fitted \<^verbatim>\<open>sklearn.impute.SimpleImputer\<close>: one fill value per column it was fitted
  on (\<^verbatim>\<open>statistics_\<close>; \<open>NaN\<close> for a column that was empty at fit time) and the labels
  of those columns when it was fitted on a labelled frame (\<^verbatim>\<open>feature_names_in_\<close>).
\<close>

record imputer =
  feature_names_in :: "string list option"
  statistics :: "cell list"

text \<open>
  The dictionary that \<^verbatim>\<open>joblib.load\<close> returns. \<open>manual_mappings\<close> is a dictionary of
  dictionaries, an association list read through \<open>map_of\<close>; the inner dictionaries send
  raw category values to numeric codes. The fitted Cox model is used through
  \<^verbatim>\<open>predict_partial_hazard\<close> only, which scores each row from its feature values alone:
  \<open>None\<close> when it raises, \<open>Some None\<close> for a \<^verbatim>\<open>nan\<close> score.
\<close>

record model_components =
  best_features :: "string list"
  pure_numeric_features :: "string list"
  categorical_features :: "string list"
  manual_mappings :: "(string \<times> (cell \<rightharpoonup> real)) list"
  imputer_numeric :: imputer
  imputer_categorical :: imputer
  cox_model :: "cell list \<Rightarrow> real option option"

text \<open>
  What the script takes from pandas and lifelines and this development does not
  define: how \<^verbatim>\<open>pd.to_numeric\<close> reads a text as a number (\<open>None\<close>: unparseable), and
  \<^verbatim>\<open>concordance_index\<close> on event times, predicted scores and event indicators
  (\<open>None\<close>: it raises).
\<close>

record library =
  parse_float :: "string \<Rightarrow> real option"
  concordance_index :: "cell list \<Rightarrow> cell list \<Rightarrow> cell list \<Rightarrow> real option"

subsection \<open>Frame operations\<close>

text \<open>\<^verbatim>\<open>new_data[col]\<close>\<close>

definition column :: "table \<Rightarrow> string \<Rightarrow> cell list" where
  "column t col = map (\<lambda>r. r col) (rows t)"

text \<open>
  \<^verbatim>\<open>new_data[col] = vs\<close>: an existing column is overwritten, a new one is appended. The
  script assigns one value per row everywhere (the lemmas on lengths below); pandas would
  raise on any other number of values.
\<close>

definition assign_column :: "table \<Rightarrow> string \<Rightarrow> cell list \<Rightarrow> table" where
  "assign_column t col vs =
     \<lparr>columns = (if col \<in> set (columns t) then columns t else columns t @ [col]),
      rows = map2 (\<lambda>r v. r(col := v)) (rows t) vs\<rparr>"

text \<open>
  \<^verbatim>\<open>new_data[cols]\<close>: the frame of the listed columns. A row of it has nothing under the
  other labels; the script never reads a column that the frame does not have.
\<close>

definition select_columns :: "table \<Rightarrow> string list \<Rightarrow> table" where
  "select_columns t cols =
     \<lparr>columns = cols,
      rows = map (\<lambda>r col. if col \<in> set cols then r col else NaN) (rows t)\<rparr>"

text \<open>\<^verbatim>\<open>new_data[col].isna().any()\<close>\<close>

definition isna_any :: "table \<Rightarrow> string \<Rightarrow> bool" where
  "isna_any t col = (NaN \<in> set (column t col))"

text \<open>\<^verbatim>\<open>Series.fillna(v)\<close>\<close>

definition fillna :: "real \<Rightarrow> cell list \<Rightarrow> cell list" where
  "fillna v xs = map (\<lambda>x. if x = NaN then Num v else x) xs"

text \<open>\<^verbatim>\<open>pd.to_numeric(xs, errors='coerce')\<close>\<close>

fun to_numeric_cell :: "library \<Rightarrow> cell \<Rightarrow> cell" where
  "to_numeric_cell lib (Str s) = (case parse_float lib s of Some x \<Rightarrow> Num x | None \<Rightarrow> NaN)"
| "to_numeric_cell lib c = c"

definition to_numeric :: "library \<Rightarrow> cell list \<Rightarrow> cell list" where
  "to_numeric lib xs = map (to_numeric_cell lib) xs"

text \<open>\<^verbatim>\<open>Series.map(mapping)\<close> with a dictionary: a value that is no key becomes missing.\<close>

definition map_series :: "(cell \<rightharpoonup> real) \<Rightarrow> cell list \<Rightarrow> cell list" where
  "map_series mapping xs = map (\<lambda>x. case mapping x of Some code \<Rightarrow> Num code | None \<Rightarrow> NaN) xs"

text \<open>
  \<^verbatim>\<open>new_data[[col]] = imputer.transform(new_data[[col]])\<close>, on the frame of the single
  column \<open>col\<close>. scikit-learn checks the frame against the fit: the number of columns
  must be the number the imputer was fitted on, and (from version 1.2) the labels must be
  the fitted ones when both are known. Then every missing cell of a column gets the
  statistic at that column's position; a column whose statistic is \<^verbatim>\<open>nan\<close> is dropped from
  the result, and assigning no column to one label raises.
\<close>

definition transform :: "imputer \<Rightarrow> string \<Rightarrow> cell list \<Rightarrow> error + cell list" where
  "transform imp col xs =
     (case statistics imp of
        [v] \<Rightarrow>
          if feature_names_in imp \<notin> {None, Some [col]} then Inl ImputerError
          else if v = NaN then Inl ImputerError
          else Inr (map (\<lambda>x. if x = NaN then v else x) xs)
      | _ \<Rightarrow> Inl ImputerError)"

section \<open>The stages of \<^verbatim>\<open>predict_on_new_data\<close>\<close>

subsection \<open>Lines 37 to 46: the required features\<close>

definition missing_cols :: "model_components \<Rightarrow> table \<Rightarrow> string list" where
  "missing_cols b t = filter (\<lambda>col. col \<notin> set (columns t)) (best_features b)"

definition required_cols :: "model_components \<Rightarrow> string list" where
  "required_cols b = best_features b @ [''OS_Time'', ''Event'']"

text \<open>The list comprehension of line 46.\<close>

definition kept_columns :: "model_components \<Rightarrow> table \<Rightarrow> string list" where
  "kept_columns b t = filter (\<lambda>col. col \<in> set (columns t)) (required_cols b)"

definition keep_required :: "model_components \<Rightarrow> table \<Rightarrow> error + table" where
  "keep_required b t =
     (if missing_cols b t \<noteq> [] then Inl (MissingFeatures (missing_cols b t))
      else Inr (select_columns t (kept_columns b t)))"

subsection \<open>Lines 51 to 73: preprocessing\<close>

text \<open>The fourth token is the full-width question mark, three bytes in UTF-8.\<close>

definition missing_values :: "string list" where
  "missing_values =
     [''NA'', ''/'', ''unknown'', [CHR 0xEF, CHR 0xBC, CHR 0x9F], ''nan'', ''NaN'', '''']"

fun replace_cell :: "cell \<Rightarrow> cell" where
  "replace_cell (Str s) = (if s \<in> set missing_values then NaN else Str s)"
| "replace_cell c = c"

text \<open>\<^verbatim>\<open>new_data.replace(missing_values, np.nan)\<close>\<close>

definition replace_missing :: "table \<Rightarrow> table" where
  "replace_missing t = t\<lparr>rows := map (\<lambda>r col. replace_cell (r col)) (rows t)\<rparr>"

definition numeric_in_model :: "model_components \<Rightarrow> table \<Rightarrow> string list" where
  "numeric_in_model b t = filter (\<lambda>col. col \<in> set (columns t)) (pure_numeric_features b)"

definition categorical_in_model :: "model_components \<Rightarrow> table \<Rightarrow> string list" where
  "categorical_in_model b t = filter (\<lambda>col. col \<in> set (columns t)) (categorical_features b)"

text \<open>Lines 57 and 58.\<close>

definition coerce_numeric :: "library \<Rightarrow> string list \<Rightarrow> table \<Rightarrow> table" where
  "coerce_numeric lib cols t =
     fold (\<lambda>col t. assign_column t col (to_numeric lib (column t col))) cols t"

text \<open>Lines 60 to 62 and 64 to 66: the same loop, once for each imputer.\<close>

fun impute :: "imputer \<Rightarrow> string list \<Rightarrow> table \<Rightarrow> error + table" where
  "impute imp [] t = Inr t"
| "impute imp (col # cols) t =
     (if isna_any t col then
        (case transform imp col (column t col) of
           Inl e \<Rightarrow> Inl e
         | Inr vs \<Rightarrow> impute imp cols (assign_column t col vs))
      else impute imp cols t)"

text \<open>
  Lines 68 to 70. A dictionary has each key once: the keys of the association list are
  \<open>remdups (map fst _)\<close> and \<open>map_of\<close> looks a key up.
\<close>

definition apply_mapping :: "(string \<times> (cell \<rightharpoonup> real)) list \<Rightarrow> string \<Rightarrow> table \<Rightarrow> table" where
  "apply_mapping mm col t =
     (case map_of mm col of
        Some mapping \<Rightarrow>
          if col \<in> set (columns t)
          then assign_column t col (fillna (- 1) (map_series mapping (column t col)))
          else t
      | None \<Rightarrow> t)"

definition apply_manual_mappings :: "model_components \<Rightarrow> table \<Rightarrow> table" where
  "apply_manual_mappings b t =
     fold (apply_mapping (manual_mappings b)) (remdups (map fst (manual_mappings b))) t"

text \<open>Lines 72 and 73.\<close>

definition coerce_ecog :: "library \<Rightarrow> table \<Rightarrow> table" where
  "coerce_ecog lib t =
     (if ''ECOG_Score'' \<in> set (columns t)
      then assign_column t ''ECOG_Score'' (fillna (- 1) (to_numeric lib (column t ''ECOG_Score'')))
      else t)"

definition preprocess :: "library \<Rightarrow> model_components \<Rightarrow> table \<Rightarrow> error + table" where
  "preprocess lib b t0 =
     (let t1 = replace_missing t0;
          t2 = coerce_numeric lib (numeric_in_model b t1) t1
      in case impute (imputer_numeric b) (numeric_in_model b t1) t2 of
           Inl e \<Rightarrow> Inl e
         | Inr t3 \<Rightarrow>
             (case impute (imputer_categorical b) (categorical_in_model b t1) t3 of
                Inl e \<Rightarrow> Inl e
              | Inr t4 \<Rightarrow> Inr (coerce_ecog lib (apply_manual_mappings b t4))))"

subsection \<open>Lines 80 and 81: the risk score\<close>

fun predict_partial_hazard :: "(cell list \<Rightarrow> real option option) \<Rightarrow> cell list list \<Rightarrow> error + real option list" where
  "predict_partial_hazard cox [] = Inr []"
| "predict_partial_hazard cox (x # xs) =
     (case cox x of
        None \<Rightarrow> Inl HazardModelError
      | Some s \<Rightarrow>
          (case predict_partial_hazard cox xs of
             Inl e \<Rightarrow> Inl e
           | Inr ss \<Rightarrow> Inr (s # ss)))"

fun score_cell :: "real option \<Rightarrow> cell" where
  "score_cell None = NaN"
| "score_cell (Some s) = Num s"

text \<open>\<^verbatim>\<open>new_data[best_features]\<close>, row by row.\<close>

definition feature_rows :: "model_components \<Rightarrow> table \<Rightarrow> cell list list" where
  "feature_rows b t = map (\<lambda>r. map r (best_features b)) (rows t)"

subsection \<open>Lines 84 to 90: the risk group\<close>

text \<open>\<^verbatim>\<open>Series.nunique()\<close>: the number of distinct values, missing ones left out.\<close>

definition nunique :: "real option list \<Rightarrow> nat" where
  "nunique x = length (remdups [v. Some v \<leftarrow> x])"

text \<open>
  The quantile \<open>k / q\<close> of a sorted list, by linear interpolation between the two
  neighbours of position \<open>(n - 1) * k / q\<close>, as \<^verbatim>\<open>np.quantile\<close> computes it.
\<close>

definition quantile :: "real list \<Rightarrow> nat \<Rightarrow> nat \<Rightarrow> real" where
  "quantile s k q =
     (let pos = (length s - 1) * k; lo = pos div q; frac = real (pos mod q) / real q
      in if lo + 1 < length s then s ! lo + frac * (s ! (lo + 1) - s ! lo) else s ! lo)"

text \<open>\<^verbatim>\<open>algos.unique\<close>: the first occurrence of every value, in order.\<close>

definition unique :: "real list \<Rightarrow> real list" where
  "unique xs = rev (remdups (rev xs))"

text \<open>
  The label of one value in \<^verbatim>\<open>_bins_to_cuts\<close>, with \<^verbatim>\<open>right=True\<close> and
  \<^verbatim>\<open>include_lowest=True\<close>: \<^verbatim>\<open>searchsorted\<close> from the left counts the edges below the
  value, the lowest edge belongs to the first bin, and a value outside all bins (or a
  missing one) gets no label.
\<close>

fun cut_label :: "real list \<Rightarrow> string list \<Rightarrow> real option \<Rightarrow> cell" where
  "cut_label bins labels None = NaN"
| "cut_label bins labels (Some v) =
     (let ids = (if v = bins ! 0 then 1 else length (filter (\<lambda>e. e < v) bins))
      in if ids = length bins \<or> ids = 0 then NaN else Str (labels ! (ids - 1)))"

text \<open>
  \<^verbatim>\<open>pd.qcut(x, q=q, labels=labels, duplicates='drop')\<close>. The edges are the quantiles
  \<open>0/q, \<dots>, q/q\<close> of the values that are not missing; duplicate edges are dropped; the
  labels given must then be one fewer than the edges that are left. The script calls it
  only when at least two distinct scores exist, so the quantiles of no value at all are
  never asked for.
\<close>

definition qcut :: "real option list \<Rightarrow> nat \<Rightarrow> string list \<Rightarrow> error + cell list" where
  "qcut x q labels =
     (let s = sort [v. Some v \<leftarrow> x];
          quantiles = map (\<lambda>k. quantile s k q) [0..<q + 1];
          unique_bins = unique quantiles;
          bins = (if length unique_bins < length quantiles \<and> length quantiles \<noteq> 2
                  then unique_bins else quantiles)
      in if s = [] then Inl EmptyQuantileError
         else if length labels \<noteq> length bins - 1 then Inl BinLabelsError
         else Inr (map (cut_label bins labels) x))"

definition risk_group :: "real option list \<Rightarrow> error + cell list" where
  "risk_group x =
     (let unique_scores = nunique x
      in if unique_scores \<ge> 3 then qcut x 3 [''Low'', ''Medium'', ''High'']
         else if unique_scores = 2 then qcut x 2 [''Low'', ''High'']
         else Inr (replicate (length x) (Str ''Medium'')))"

subsection \<open>Lines 93 to 98: the concordance index\<close>

fun neg_cell :: "cell \<Rightarrow> cell" where
  "neg_cell (Num x) = Num (- x)"
| "neg_cell c = c"

definition c_index :: "library \<Rightarrow> table \<Rightarrow> error + real option" where
  "c_index lib t =
     (if ''Event'' \<in> set (columns t) \<and> ''OS_Time'' \<in> set (columns t) then
        (case concordance_index lib (column t ''OS_Time'')
                (map neg_cell (column t ''Risk_Score'')) (column t ''Event'') of
           None \<Rightarrow> Inl ConcordanceError
         | Some c \<Rightarrow> Inr (Some c))
      else Inr None)"

subsection \<open>The whole run on a loaded bundle and a loaded frame\<close>

text \<open>
  What a run that does not raise leaves behind: the frame it returns, the frame it
  hands to \<^verbatim>\<open>to_csv\<close>, and the concordance index it prints, if it computed one.
\<close>

record outcome =
  returned :: table
  written :: table
  printed_c_index :: "real option"

definition predict :: "library \<Rightarrow> model_components \<Rightarrow> table \<Rightarrow> error + outcome" where
  "predict lib b new_data =
     (case keep_required b new_data of
        Inl e \<Rightarrow> Inl e
      | Inr t0 \<Rightarrow>
     (case preprocess lib b t0 of
        Inl e \<Rightarrow> Inl e
      | Inr t1 \<Rightarrow>
     (case predict_partial_hazard (cox_model b) (feature_rows b t1) of
        Inl e \<Rightarrow> Inl e
      | Inr risk_scores \<Rightarrow>
     (let t2 = assign_column t1 ''Risk_Score'' (map score_cell risk_scores)
      in case risk_group risk_scores of
        Inl e \<Rightarrow> Inl e
      | Inr groups \<Rightarrow>
     (let t3 = assign_column t2 ''Risk_Group'' groups
      in case c_index lib t3 of
        Inl e \<Rightarrow> Inl e
      | Inr c \<Rightarrow> Inr \<lparr>returned = t3, written = t3, printed_c_index = c\<rparr>)))))"

subsection \<open>The run from its three arguments\<close>





section \<open>Preprocessing, cell by cell\<close>

text \<open>
  What the loops of the preprocessing stage do to a single cell. These functions are not
  in the script: they are what its column loops are proved to compute.
\<close>

definition imputed_cell :: "imputer \<Rightarrow> cell \<Rightarrow> cell" where
  "imputed_cell imp x = (case statistics imp of [v] \<Rightarrow> if x = NaN then v else x | _ \<Rightarrow> x)"

definition mapped_cell :: "(cell \<rightharpoonup> real) \<Rightarrow> cell \<Rightarrow> cell" where
  "mapped_cell mapping x = (case mapping x of Some code \<Rightarrow> Num code | None \<Rightarrow> Num (- 1))"

definition ecog_cell :: "library \<Rightarrow> cell \<Rightarrow> cell" where
  "ecog_cell lib x = (if to_numeric_cell lib x = NaN then Num (- 1) else to_numeric_cell lib x)"

definition preprocessed_cell :: "library \<Rightarrow> model_components \<Rightarrow> string list \<Rightarrow> string \<Rightarrow> cell \<Rightarrow> cell" where
  "preprocessed_cell lib b cols col x =
     (let x1 = replace_cell x;
          x2 = (if col \<in> set cols \<and> col \<in> set (pure_numeric_features b)
                then to_numeric_cell lib x1 else x1);
          x3 = (if col \<in> set cols \<and> col \<in> set (pure_numeric_features b)
                then imputed_cell (imputer_numeric b) x2 else x2);
          x4 = (if col \<in> set cols \<and> col \<in> set (categorical_features b)
                then imputed_cell (imputer_categorical b) x3 else x3);
          x5 = (case map_of (manual_mappings b) col of
                  Some mapping \<Rightarrow> if col \<in> set cols then mapped_cell mapping x4 else x4
                | None \<Rightarrow> x4)
      in if col = ''ECOG_Score'' \<and> col \<in> set cols then ecog_cell lib x5 else x5)"

text \<open>
  The column \<open>col\<close> of the frame that line 80 hands to the hazard model, and the imputers
  that can fill a one-column frame.
\<close>

definition preprocessed_column :: "library \<Rightarrow> model_components \<Rightarrow> table \<Rightarrow> string \<Rightarrow> error + cell list" where
  "preprocessed_column lib b new_data col =
     (case keep_required b new_data of
        Inl e \<Rightarrow> Inl e
      | Inr t0 \<Rightarrow>
          (case preprocess lib b t0 of
             Inl e \<Rightarrow> Inl e
           | Inr t1 \<Rightarrow> Inr (column t1 col)))"

definition usable :: "imputer \<Rightarrow> bool" where
  "usable imp = (case statistics imp of [v] \<Rightarrow> v \<noteq> NaN | _ \<Rightarrow> False)"

section \<open>A small bundle and a small frame\<close>

text \<open>
  Concrete inputs on which the definitions above are evaluated: three selected features,
  one numeric, one categorical with a manual mapping, and the performance status; each
  imputer fitted on its single column; three patients with survival data.
\<close>

definition row_of :: "(string \<times> cell) list \<Rightarrow> string \<Rightarrow> cell" where
  "row_of kvs col = (case map_of kvs col of Some v \<Rightarrow> v | None \<Rightarrow> NaN)"

definition ex_components :: model_components where
  "ex_components =
     \<lparr>best_features = [''Age'', ''Sex'', ''ECOG_Score''],
      pure_numeric_features = [''Age''],
      categorical_features = [''Sex''],
      manual_mappings = [(''Sex'', map_of [(Str ''M'', 1), (Str ''F'', 0)])],
      imputer_numeric = \<lparr>feature_names_in = Some [''Age''], statistics = [Num 60]\<rparr>,
      imputer_categorical = \<lparr>feature_names_in = Some [''Sex''], statistics = [Str ''M'']\<rparr>,
      cox_model = (\<lambda>xs. case xs of [Num a, Num s, Num e] \<Rightarrow> Some (Some (a + 10 * s + 5 * e))
                              | _ \<Rightarrow> None)\<rparr>"

definition ex_library :: library where
  "ex_library =
     \<lparr>parse_float = map_of [(''70'', 70), (''2'', 2)],
      concordance_index =
        (\<lambda>times scores events. if length times < 2 then None else Some (1 / 2))\<rparr>"

definition ex_table :: table where
  "ex_table =
     \<lparr>columns = [''ID'', ''Age'', ''Sex'', ''ECOG_Score'', ''OS_Time'', ''Event''],
      rows =
        [row_of [(''ID'', Str ''p1''), (''Age'', Num 50), (''Sex'', Str ''F''),
                 (''ECOG_Score'', Num 1), (''OS_Time'', Num 12), (''Event'', Num 1)],
         row_of [(''ID'', Str ''p2''), (''Age'', Str ''NA''), (''Sex'', Str ''M''),
                 (''ECOG_Score'', Str ''unknown''), (''OS_Time'', Num 30), (''Event'', Num 0)],
         row_of [(''ID'', Str ''p3''), (''Age'', Str ''70''), (''Sex'', NaN),
                 (''ECOG_Score'', Str ''2''), (''OS_Time'', Num 7), (''Event'', Num 1)]]\<rparr>"


section \<open>The loops compute the cell-wise functions\<close>

lemma map2_same: "map2 h xs (map g xs) = map (\<lambda>x. h x (g x)) xs"
  by (induction xs) auto

lemma rows_assign_map:
  "rows (assign_column t col (map f (column t col))) = map (\<lambda>r. r(col := f (r col))) (rows t)"
  by (simp add: assign_column_def column_def map2_same o_def)

lemma columns_assign:
  "col \<in> set (columns t) \<Longrightarrow> columns (assign_column t col vs) = columns t"
  by (simp add: assign_column_def)

lemma to_numeric_cell_idem: "to_numeric_cell lib (to_numeric_cell lib x) = to_numeric_cell lib x"
  by (cases x) (auto split: option.splits)

lemma coerce_numeric_rows:
  "rows (coerce_numeric lib cols t) =
     map (\<lambda>r col. if col \<in> set cols then to_numeric_cell lib (r col) else r col) (rows t)"
proof (induction cols arbitrary: t)
  case Nil
  then show ?case by (simp add: coerce_numeric_def)
next
  case (Cons c cs)
  have "rows (coerce_numeric lib (c # cs) t) =
        rows (coerce_numeric lib cs (assign_column t c (to_numeric lib (column t c))))"
    by (simp add: coerce_numeric_def)
  also have "\<dots> = map (\<lambda>r col. if col \<in> set cs then to_numeric_cell lib (r col) else r col)
                    (map (\<lambda>r. r(c := to_numeric_cell lib (r c))) (rows t))"
    by (simp add: Cons.IH to_numeric_def rows_assign_map)
  also have "\<dots> = map (\<lambda>r col. if col \<in> set (c # cs) then to_numeric_cell lib (r col) else r col) (rows t)"
    by (auto simp: fun_eq_iff to_numeric_cell_idem)
  finally show ?case .
qed

lemma coerce_numeric_columns:
  "set cols \<subseteq> set (columns t) \<Longrightarrow> columns (coerce_numeric lib cols t) = columns t"
proof (induction cols arbitrary: t)
  case Nil
  then show ?case by (simp add: coerce_numeric_def)
next
  case (Cons c cs)
  then show ?case by (simp add: coerce_numeric_def columns_assign)
qed

lemma isna_any_iff: "isna_any t col \<longleftrightarrow> (\<exists>r \<in> set (rows t). r col = NaN)"
  unfolding isna_any_def column_def by (metis (mono_tags, lifting) image_iff list.set_map)

lemma transform_InrD:
  "transform imp col xs = Inr vs \<Longrightarrow>
     \<exists>v. statistics imp = [v] \<and> v \<noteq> NaN \<and> vs = map (imputed_cell imp) xs"
  by (auto simp: transform_def imputed_cell_def split: list.splits if_splits)

lemma impute_rows:
  "impute imp cols t = Inr t' \<Longrightarrow>
     rows t' = map (\<lambda>r col. if col \<in> set cols then imputed_cell imp (r col) else r col) (rows t) \<and>
     ((\<exists>col \<in> set cols. isna_any t col) \<longrightarrow> (\<exists>v. statistics imp = [v] \<and> v \<noteq> NaN))"
proof (induction cols arbitrary: t)
  case Nil
  then show ?case by simp
next
  case (Cons c cs)
  show ?case
  proof (cases "isna_any t c")
    case True
    with Cons.prems obtain vs where tr: "transform imp c (column t c) = Inr vs"
      and rest: "impute imp cs (assign_column t c vs) = Inr t'"
      by (auto split: sum.splits)
    from transform_InrD[OF tr] obtain v where v: "statistics imp = [v]" "v \<noteq> NaN"
      "vs = map (imputed_cell imp) (column t c)" by blast
    let ?t1 = "assign_column t c vs"
    have r1: "rows ?t1 = map (\<lambda>r. r(c := imputed_cell imp (r c))) (rows t)"
      using v(3) by (simp add: rows_assign_map)
    from Cons.IH[OF rest] have
      ih: "rows t' = map (\<lambda>r col. if col \<in> set cs then imputed_cell imp (r col) else r col) (rows ?t1)"
      by auto
    have idem: "\<And>x. imputed_cell imp (imputed_cell imp x) = imputed_cell imp x"
      using v by (simp add: imputed_cell_def)
    have "rows t' = map (\<lambda>r col. if col \<in> set (c # cs) then imputed_cell imp (r col) else r col) (rows t)"
      unfolding ih r1 by (auto simp: fun_eq_iff idem)
    with v show ?thesis by auto
  next
    case False
    with Cons.prems have rest: "impute imp cs t = Inr t'" by simp
    from Cons.IH[OF rest] have
      ih: "rows t' = map (\<lambda>r col. if col \<in> set cs then imputed_cell imp (r col) else r col) (rows t)"
        "(\<exists>col \<in> set cs. isna_any t col) \<longrightarrow> (\<exists>v. statistics imp = [v] \<and> v \<noteq> NaN)"
      by auto
    have "\<And>r. r \<in> set (rows t) \<Longrightarrow> r c \<noteq> NaN"
      using False by (auto simp: isna_any_iff)
    then have nn: "\<And>r. r \<in> set (rows t) \<Longrightarrow> imputed_cell imp (r c) = r c"
      by (simp add: imputed_cell_def split: list.splits)
    have "rows t' = map (\<lambda>r col. if col \<in> set (c # cs) then imputed_cell imp (r col) else r col) (rows t)"
      unfolding ih(1) by (auto simp: fun_eq_iff nn)
    with ih(2) False show ?thesis by auto
  qed
qed

lemma impute_columns:
  "impute imp cols t = Inr t' \<Longrightarrow> set cols \<subseteq> set (columns t) \<Longrightarrow> columns t' = columns t"
proof (induction cols arbitrary: t)
  case Nil
  then show ?case by simp
next
  case (Cons c cs)
  then show ?case
    by (cases "isna_any t c") (auto split: sum.splits simp: columns_assign)
qed


lemma fillna_map_series: "fillna (- 1) (map_series mapping xs) = map (mapped_cell mapping) xs"
  by (auto simp: fillna_def map_series_def mapped_cell_def split: option.splits)

lemma apply_mapping_columns: "columns (apply_mapping mm col t) = columns t"
  by (simp add: apply_mapping_def columns_assign split: option.splits)

lemma apply_mapping_rows:
  "rows (apply_mapping mm c t) =
     map (\<lambda>r col. if col = c \<and> col \<in> set (columns t)
                   then (case map_of mm col of Some mapping \<Rightarrow> mapped_cell mapping (r col) | None \<Rightarrow> r col)
                   else r col) (rows t)"
proof (cases "map_of mm c")
  case None
  then have "(\<lambda>r col. if col = c \<and> col \<in> set (columns t)
                   then (case map_of mm col of Some mapping \<Rightarrow> mapped_cell mapping (r col) | None \<Rightarrow> r col)
                   else r col) = (\<lambda>r. r)"
    by (auto simp: fun_eq_iff)
  with None show ?thesis by (simp add: apply_mapping_def)
next
  case (Some mapping)
  show ?thesis
  proof (cases "c \<in> set (columns t)")
    case True
    with Some show ?thesis
      by (auto simp: apply_mapping_def fillna_map_series rows_assign_map fun_eq_iff)
  next
    case False
    then have "(\<lambda>r col. if col = c \<and> col \<in> set (columns t)
                   then (case map_of mm col of Some mapping \<Rightarrow> mapped_cell mapping (r col) | None \<Rightarrow> r col)
                   else r col) = (\<lambda>r. r)"
      by (auto simp: fun_eq_iff)
    with Some False show ?thesis by (simp add: apply_mapping_def)
  qed
qed

lemma fold_apply_mapping_columns: "columns (fold (apply_mapping mm) ks t) = columns t"
  by (induction ks arbitrary: t) (simp_all add: apply_mapping_columns)

lemma fold_apply_mapping_rows:
  "distinct ks \<Longrightarrow>
   rows (fold (apply_mapping mm) ks t) =
     map (\<lambda>r col. if col \<in> set ks \<and> col \<in> set (columns t)
                   then (case map_of mm col of Some mapping \<Rightarrow> mapped_cell mapping (r col) | None \<Rightarrow> r col)
                   else r col) (rows t)"
proof (induction ks arbitrary: t)
  case Nil
  then show ?case by simp
next
  case (Cons k ks)
  then have "rows (fold (apply_mapping mm) (k # ks) t) =
     map (\<lambda>r col. if col \<in> set ks \<and> col \<in> set (columns t)
                   then (case map_of mm col of Some mapping \<Rightarrow> mapped_cell mapping (r col) | None \<Rightarrow> r col)
                   else r col) (rows (apply_mapping mm k t))"
    by (simp add: apply_mapping_columns)
  also have "\<dots> = map (\<lambda>r col. if col \<in> set (k # ks) \<and> col \<in> set (columns t)
                   then (case map_of mm col of Some mapping \<Rightarrow> mapped_cell mapping (r col) | None \<Rightarrow> r col)
                   else r col) (rows t)"
    using Cons.prems unfolding apply_mapping_rows by (auto simp: fun_eq_iff)
  finally show ?case .
qed

lemma coerce_ecog_columns: "columns (coerce_ecog lib t) = columns t"
  by (simp add: coerce_ecog_def columns_assign)

lemma coerce_ecog_rows:
  "rows (coerce_ecog lib t) =
     map (\<lambda>r col. if col = ''ECOG_Score'' \<and> col \<in> set (columns t) then ecog_cell lib (r col) else r col)
       (rows t)"
proof -
  have fe: "fillna (- 1) (to_numeric lib xs) = map (ecog_cell lib) xs" for xs
    by (simp add: fillna_def to_numeric_def ecog_cell_def)
  show ?thesis
  proof (cases "''ECOG_Score'' \<in> set (columns t)")
    case True
    then show ?thesis
      by (auto simp: coerce_ecog_def fe to_numeric_def fillna_def ecog_cell_def rows_assign_map fun_eq_iff)
  next
    case False
    then have "(\<lambda>r col. if col = ''ECOG_Score'' \<and> col \<in> set (columns t) then ecog_cell lib (r col) else r col)
         = (\<lambda>r. r)"
      by (auto simp: fun_eq_iff)
    with False show ?thesis by (simp add: coerce_ecog_def)
  qed
qed

lemma apply_manual_mappings_rows:
  "rows (apply_manual_mappings b t) =
     map (\<lambda>r col. case map_of (manual_mappings b) col of
                     Some mapping \<Rightarrow> if col \<in> set (columns t) then mapped_cell mapping (r col) else r col
                   | None \<Rightarrow> r col) (rows t)"
proof -
  have "(\<lambda>r col. if col \<in> set (remdups (map fst (manual_mappings b))) \<and> col \<in> set (columns t)
                   then (case map_of (manual_mappings b) col of Some mapping \<Rightarrow> mapped_cell mapping (r col) | None \<Rightarrow> r col)
                   else r col)
      = (\<lambda>r col. case map_of (manual_mappings b) col of
                     Some mapping \<Rightarrow> if col \<in> set (columns t) then mapped_cell mapping (r col) else r col
                   | None \<Rightarrow> r col)"
    by (auto simp: fun_eq_iff map_of_eq_None_iff[symmetric] split: option.splits)
  then show ?thesis
    by (simp add: apply_manual_mappings_def fold_apply_mapping_rows)
qed

lemma apply_manual_mappings_columns: "columns (apply_manual_mappings b t) = columns t"
  by (simp add: apply_manual_mappings_def fold_apply_mapping_columns)

lemma replace_missing_simps:
  "columns (replace_missing t) = columns t"
  "rows (replace_missing t) = map (\<lambda>r col. replace_cell (r col)) (rows t)"
  by (simp_all add: replace_missing_def)

lemma preprocess_rows:
  assumes "preprocess lib b t = Inr t'"
  shows "columns t' = columns t"
    and "rows t' = map (\<lambda>r col. preprocessed_cell lib b (columns t) col (r col)) (rows t)"
proof -
  let ?t1 = "replace_missing t"
  let ?num = "numeric_in_model b ?t1"
  let ?cat = "categorical_in_model b ?t1"
  let ?t2 = "coerce_numeric lib ?num ?t1"
  from assms obtain t3 t4 where
    t3: "impute (imputer_numeric b) ?num ?t2 = Inr t3" and
    t4: "impute (imputer_categorical b) ?cat t3 = Inr t4" and
    t': "t' = coerce_ecog lib (apply_manual_mappings b t4)"
    by (auto simp: preprocess_def Let_def split: sum.splits)
  have num: "set ?num = {c. c \<in> set (columns t) \<and> c \<in> set (pure_numeric_features b)}"
    and cat: "set ?cat = {c. c \<in> set (columns t) \<and> c \<in> set (categorical_features b)}"
    by (auto simp: numeric_in_model_def categorical_in_model_def replace_missing_simps)
  have c2: "columns ?t2 = columns t"
    using num by (subst coerce_numeric_columns) (auto simp: replace_missing_simps)
  have c3: "columns t3 = columns t"
    using impute_columns[OF t3] num c2 by auto
  have c4: "columns t4 = columns t"
    using impute_columns[OF t4] cat c3 by auto
  show "columns t' = columns t"
    by (simp add: t' coerce_ecog_columns apply_manual_mappings_columns c4)
  have r2: "rows ?t2 = map (\<lambda>r col. if col \<in> set (columns t) \<and> col \<in> set (pure_numeric_features b) then to_numeric_cell lib (replace_cell (r col)) else replace_cell (r col)) (rows t)"
    by (simp add: coerce_numeric_rows replace_missing_simps o_def num)
  have r3: "rows t3 = map (\<lambda>r col. if col \<in> set (columns t) \<and> col \<in> set (pure_numeric_features b) then imputed_cell (imputer_numeric b) (r col) else r col) (rows ?t2)"
    using impute_rows[OF t3] by (simp add: num)
  have r4: "rows t4 = map (\<lambda>r col. if col \<in> set (columns t) \<and> col \<in> set (categorical_features b) then imputed_cell (imputer_categorical b) (r col) else r col) (rows t3)"
    using impute_rows[OF t4] by (simp add: cat)
  have "rows t' = map (\<lambda>r col. if col = ''ECOG_Score'' \<and> col \<in> set (columns t) then ecog_cell lib (r col) else r col)
       (map (\<lambda>r col. case map_of (manual_mappings b) col of
                     Some mapping \<Rightarrow> if col \<in> set (columns t) then mapped_cell mapping (r col) else r col
                   | None \<Rightarrow> r col) (rows t4))"
    by (simp only: t' coerce_ecog_rows apply_manual_mappings_rows apply_manual_mappings_columns c4)
  also have "\<dots> = map (\<lambda>r col. preprocessed_cell lib b (columns t) col (r col)) (rows t)"
    unfolding r4 r3 r2 map_map o_def preprocessed_cell_def Let_def ..
  finally show "rows t' = map (\<lambda>r col. preprocessed_cell lib b (columns t) col (r col)) (rows t)" .
qed

section \<open>Evaluating the stages\<close>

lemmas ex_defs = ex_components_def ex_library_def ex_table_def row_of_def

lemmas stage_defs = keep_required_def missing_cols_def required_cols_def kept_columns_def
  select_columns_def
  preprocess_def Let_def replace_missing_def numeric_in_model_def categorical_in_model_def
  coerce_numeric_def assign_column_def column_def to_numeric_def isna_any_def transform_def
  apply_manual_mappings_def apply_mapping_def fillna_def map_series_def coerce_ecog_def
  missing_values_def

lemmas score_defs = predict_def feature_rows_def risk_group_def nunique_def qcut_def
  quantile_def unique_def c_index_def upt_rec

lemma ex_run: "\<exists>out. predict ex_library ex_components ex_table = Inr out"
  by (simp add: ex_defs stage_defs score_defs)

section \<open>The manual category mappings\<close>

text \<open>
  C6. For a feature that has a manual mapping in the bundle and is a column of the frame,
  the mapping step (lines 68 to 70) leaves in every cell of that column the code of the
  cell's value when the value is a key of the mapping, and the sentinel \<open>-1\<close> when it is
  not.
\<close>

theorem manual_mapping_codes:
  assumes "map_of (manual_mappings b) col = Some mapping" and "col \<in> set (columns t)"
  shows "column (apply_manual_mappings b t) col =
           map (\<lambda>x. case mapping x of Some code \<Rightarrow> Num code | None \<Rightarrow> Num (- 1)) (column t col)"
  using assms by (simp add: column_def apply_manual_mappings_rows mapped_cell_def o_def)

theorem manual_mapping_codes_witness:
  "column (apply_manual_mappings ex_components ex_table) ''Sex'' = [Num 0, Num 1, Num (- 1)]"
  using manual_mapping_codes[of ex_components "''Sex''" "map_of [(Str ''M'', 1), (Str ''F'', 0)]" ex_table]
  by (simp add: ex_defs column_def)

section \<open>The imputers and the columns without missing entries\<close>



lemma pph_length: "predict_partial_hazard cox xs = Inr ss \<Longrightarrow> length ss = length xs"
  by (induction xs arbitrary: ss) (auto split: option.splits sum.splits)

lemma pph_values:
  "predict_partial_hazard cox xs = Inr ss \<Longrightarrow>
     map score_cell ss = map (\<lambda>x. case cox x of Some s \<Rightarrow> score_cell s | None \<Rightarrow> NaN) xs"
  by (induction xs arbitrary: ss) (auto split: option.splits sum.splits)


lemma qcut_length: "qcut x q labels = Inr g \<Longrightarrow> length g = length x"
  by (auto simp: qcut_def Let_def split: if_splits)


lemma risk_group_length: "risk_group x = Inr g \<Longrightarrow> length g = length x"
  by (auto simp: risk_group_def Let_def qcut_length split: if_splits)




lemma column_assign:
  assumes "length vs = length (rows t)"
  shows "column (assign_column t c vs) c' = (if c' = c then vs else column t c')"
proof -
  have "length xs = length vs \<Longrightarrow>
        map (\<lambda>r. r c') (map2 (\<lambda>r v. r(c := v)) xs vs) = (if c' = c then vs else map (\<lambda>r. r c') xs)"
    for xs :: "(string \<Rightarrow> cell) list"
    by (induction xs vs rule: list_induct2) auto
  from this[of "rows t"] assms show ?thesis
    by (simp add: assign_column_def column_def)
qed


lemma length_rows_assign:
  "length vs = length (rows t) \<Longrightarrow> length (rows (assign_column t c vs)) = length (rows t)"
  by (simp add: assign_column_def)

lemma predict_InrD:
  assumes "predict lib b t = Inr out"
  obtains t1 scores groups where
    "missing_cols b t = []"
    "preprocess lib b (select_columns t (kept_columns b t)) = Inr t1"
    "predict_partial_hazard (cox_model b) (feature_rows b t1) = Inr scores"
    "risk_group scores = Inr groups"
    "c_index lib (assign_column (assign_column t1 ''Risk_Score'' (map score_cell scores)) ''Risk_Group'' groups)
       = Inr (printed_c_index out)"
    "returned out = assign_column (assign_column t1 ''Risk_Score'' (map score_cell scores)) ''Risk_Group'' groups"
    "written out = returned out"
  using assms
  by (auto simp: predict_def keep_required_def Let_def split: sum.splits if_splits)



lemma missing_cols_Nil: "missing_cols b t = [] \<longleftrightarrow> set (best_features b) \<subseteq> set (columns t)"
  by (auto simp: missing_cols_def filter_empty_conv)


section \<open>The required features\<close>





lemma in_kept_columns:
  "col \<in> set (kept_columns b t) \<longleftrightarrow> col \<in> set (columns t) \<and> col \<in> set (required_cols b)"
  by (auto simp: kept_columns_def)

lemma select_columns_simps:
  "columns (select_columns t cols) = cols"
  "rows (select_columns t cols) = map (\<lambda>r col. if col \<in> set cols then r col else NaN) (rows t)"
  by (simp_all add: select_columns_def)

text \<open>The frame that reaches the concordance index, in terms of the input.\<close>

lemma predict_frame:
  assumes "predict lib b t = Inr out"
  obtains t1 scores groups where
    "set (best_features b) \<subseteq> set (kept_columns b t)"
    "columns t1 = kept_columns b t"
    "rows t1 = map (\<lambda>r col. preprocessed_cell lib b (kept_columns b t) col
                               (if col \<in> set (kept_columns b t) then r col else NaN)) (rows t)"
    "preprocess lib b (select_columns t (kept_columns b t)) = Inr t1"
    "predict_partial_hazard (cox_model b) (feature_rows b t1) = Inr scores"
    "risk_group scores = Inr groups"
    "length scores = length (rows t)" "length groups = length (rows t)"
    "returned out = assign_column (assign_column t1 ''Risk_Score'' (map score_cell scores)) ''Risk_Group'' groups"
    "written out = returned out"
    "c_index lib (returned out) = Inr (printed_c_index out)"
proof -
  from assms obtain t1 scores groups where d:
    "missing_cols b t = []"
    "preprocess lib b (select_columns t (kept_columns b t)) = Inr t1"
    "predict_partial_hazard (cox_model b) (feature_rows b t1) = Inr scores"
    "risk_group scores = Inr groups"
    "c_index lib (assign_column (assign_column t1 ''Risk_Score'' (map score_cell scores)) ''Risk_Group'' groups)
       = Inr (printed_c_index out)"
    "returned out = assign_column (assign_column t1 ''Risk_Score'' (map score_cell scores)) ''Risk_Group'' groups"
    "written out = returned out"
    by (rule predict_InrD)
  from d(1) have 1: "set (best_features b) \<subseteq> set (kept_columns b t)"
    by (auto simp: missing_cols_Nil in_kept_columns required_cols_def)
  from preprocess_rows[OF d(2)] have 2: "columns t1 = kept_columns b t"
    and 3: "rows t1 = map (\<lambda>r col. preprocessed_cell lib b (kept_columns b t) col
                               (if col \<in> set (kept_columns b t) then r col else NaN)) (rows t)"
    by (simp_all add: select_columns_simps o_def)
  have 4: "length scores = length (rows t)"
    using pph_length[OF d(3)] 3 by (simp add: feature_rows_def)
  have 5: "length groups = length (rows t)"
    using risk_group_length[OF d(4)] 4 by simp
  from 1 2 3 d(2) d(3) d(4) 4 5 d(6) d(7) d(5) show ?thesis
    by (intro that) (simp_all only:)
qed


lemma ex_table_len: "length (rows ex_table) = 3"
  by (simp add: ex_table_def)

lemma predict_length:
  assumes "predict lib b t = Inr out"
  shows "length (rows (returned out)) = length (rows t)"
proof -
  from assms obtain t1 scores groups where
    "rows t1 = map (\<lambda>r col. preprocessed_cell lib b (kept_columns b t) col
                               (if col \<in> set (kept_columns b t) then r col else NaN)) (rows t)"
    "length scores = length (rows t)" "length groups = length (rows t)"
    "returned out = assign_column (assign_column t1 ''Risk_Score'' (map score_cell scores)) ''Risk_Group'' groups"
    by (rule predict_frame)
  then show ?thesis
    by (simp add: length_rows_assign)
qed


section \<open>The concordance index\<close>



section \<open>Rows are neither dropped, added nor reordered\<close>

text \<open>
  C8. A run that ends normally writes the frame it returns, and that frame has as many
  rows as the input, in the input's order: every kept column is, cell by cell, the
  preprocessed column of the input, the risk score at position \<open>i\<close> is the hazard
  model's score of the preprocessed features of input row \<open>i\<close>, and there is one risk
  group per row.
\<close>

theorem rows_kept_in_order:
  assumes "predict lib b t = Inr out"
  shows "written out = returned out \<and>
         length (rows (returned out)) = length (rows t) \<and>
         column (returned out) ''Risk_Score'' =
           map (\<lambda>r. case cox_model b (map (\<lambda>col. preprocessed_cell lib b (kept_columns b t) col (r col))
                                          (best_features b)) of
                      Some s \<Rightarrow> score_cell s | None \<Rightarrow> NaN) (rows t) \<and>
         length (column (returned out) ''Risk_Group'') = length (rows t) \<and>
         (\<forall>col \<in> set (kept_columns b t) - {''Risk_Score'', ''Risk_Group''}.
            column (returned out) col = map (preprocessed_cell lib b (kept_columns b t) col) (column t col))"
proof -
  let ?kept = "kept_columns b t"
  from assms obtain t1 scores groups where d:
    "set (best_features b) \<subseteq> set ?kept"
    "rows t1 = map (\<lambda>r col. preprocessed_cell lib b ?kept col
                               (if col \<in> set ?kept then r col else NaN)) (rows t)"
    "predict_partial_hazard (cox_model b) (feature_rows b t1) = Inr scores"
    "length scores = length (rows t)" "length groups = length (rows t)"
    "returned out = assign_column (assign_column t1 ''Risk_Score'' (map score_cell scores)) ''Risk_Group'' groups"
    "written out = returned out"
    by (rule predict_frame)
  let ?t2 = "assign_column t1 ''Risk_Score'' (map score_cell scores)"
  have l1: "length (rows t1) = length (rows t)" by (simp add: d(2))
  have l2: "length (rows ?t2) = length (rows t)" by (simp add: length_rows_assign l1 d(4))
  have col: "column (returned out) c =
               (if c = ''Risk_Group'' then groups
                else if c = ''Risk_Score'' then map score_cell scores else column t1 c)" for c
    by (simp add: d(6) column_assign l1 l2 d(4) d(5))
  have feat: "feature_rows b t1 =
      map (\<lambda>r. map (\<lambda>col. preprocessed_cell lib b ?kept col (r col)) (best_features b)) (rows t)"
    using d(1) by (auto simp: feature_rows_def d(2))
  have score: "column (returned out) ''Risk_Score'' =
           map (\<lambda>r. case cox_model b (map (\<lambda>col. preprocessed_cell lib b ?kept col (r col))
                                          (best_features b)) of
                      Some s \<Rightarrow> score_cell s | None \<Rightarrow> NaN) (rows t)"
    using pph_values[OF d(3)] by (simp add: col feat o_def)
  have kept: "column (returned out) c = map (preprocessed_cell lib b ?kept c) (column t c)"
    if "c \<in> set ?kept - {''Risk_Score'', ''Risk_Group''}" for c
  proof -
    from that have "column (returned out) c = column t1 c" by (simp add: col)
    also from that have "\<dots> = map (preprocessed_cell lib b ?kept c) (column t c)"
      by (simp add: column_def d(2) o_def)
    finally show ?thesis .
  qed
  have "length (rows (returned out)) = length (rows t)"
    using assms by (rule predict_length)
  moreover have "length (column (returned out) ''Risk_Group'') = length (rows t)"
    by (simp add: col d(5))
  ultimately show ?thesis
    using d(7) score kept by blast
qed

theorem rows_kept_in_order_witness:
  "\<exists>out. predict ex_library ex_components ex_table = Inr out \<and>
         written out = returned out \<and>
         length (rows (returned out)) = 3 \<and>
         column (returned out) ''Risk_Score'' = [Num 55, Num 65, Num 90] \<and>
         column (returned out) ''OS_Time'' = [Num 12, Num 30, Num 7] \<and>
         column (returned out) ''Age'' = [Num 50, Num 60, Num 70]"
proof -
  from ex_run obtain out where out: "predict ex_library ex_components ex_table = Inr out" ..
  note c = rows_kept_in_order[OF out]
  have k: "kept_columns ex_components ex_table = [''Age'', ''Sex'', ''ECOG_Score'', ''OS_Time'', ''Event'']"
    by (simp add: ex_defs kept_columns_def required_cols_def)
  from c have "column (returned out) ''Risk_Score'' = [Num 55, Num 65, Num 90]"
    unfolding k
    by (simp add: ex_defs preprocessed_cell_def imputed_cell_def mapped_cell_def ecog_cell_def
        missing_values_def)
  moreover from c have "column (returned out) ''OS_Time'' = [Num 12, Num 30, Num 7]"
    unfolding k
    by (simp add: ex_defs preprocessed_cell_def column_def missing_values_def)
  moreover from c have "column (returned out) ''Age'' = [Num 50, Num 60, Num 70]"
    unfolding k
    by (simp add: ex_defs preprocessed_cell_def imputed_cell_def column_def missing_values_def)
  moreover from c have "written out = returned out" "length (rows (returned out)) = 3"
    by (simp_all add: ex_table_len)
  ultimately show ?thesis using out by blast
qed

lemma imputed_cell_present: "x \<noteq> NaN \<Longrightarrow> imputed_cell imp x = x"
  by (simp add: imputed_cell_def split: list.splits)

lemma imputed_cell_usable: "usable imp \<Longrightarrow> imputed_cell imp x \<noteq> NaN"
  by (auto simp: imputed_cell_def usable_def split: list.splits)

lemma impute_usable:
  assumes "impute imp cols t = Inr t'" and "col \<in> set cols" and "r \<in> set (rows t)" and "r col = NaN"
  shows "usable imp"
proof -
  from assms(2-4) have "\<exists>col \<in> set cols. isna_any t col"
    by (auto simp: isna_any_iff)
  with impute_rows[OF assms(1)] show ?thesis
    by (auto simp: usable_def)
qed

lemma ecog_cell_numeric: "\<exists>v. ecog_cell lib x = Num v"
  by (cases x) (auto simp: ecog_cell_def split: option.splits)

lemma mapped_cell_numeric: "\<exists>v. mapped_cell mapping x = Num v"
  by (auto simp: mapped_cell_def split: option.splits)

text \<open>The cells that reach each imputer, and what a successful run says about the imputer.\<close>

lemma preprocess_usable:
  assumes "preprocess lib b t = Inr t'" and "r \<in> set (rows t)" and "col \<in> set (columns t)"
  shows "col \<in> set (pure_numeric_features b) \<Longrightarrow>
           to_numeric_cell lib (replace_cell (r col)) = NaN \<Longrightarrow> usable (imputer_numeric b)"
    and "col \<in> set (categorical_features b) \<Longrightarrow>
           (if col \<in> set (pure_numeric_features b)
            then imputed_cell (imputer_numeric b) (to_numeric_cell lib (replace_cell (r col)))
            else replace_cell (r col)) = NaN \<Longrightarrow> usable (imputer_categorical b)"
proof -
  let ?t1 = "replace_missing t"
  let ?num = "numeric_in_model b ?t1"
  let ?cat = "categorical_in_model b ?t1"
  let ?t2 = "coerce_numeric lib ?num ?t1"
  from assms(1) obtain t3 t4 where
    t3: "impute (imputer_numeric b) ?num ?t2 = Inr t3" and
    t4: "impute (imputer_categorical b) ?cat t3 = Inr t4"
    by (auto simp: preprocess_def Let_def split: sum.splits)
  have num: "col \<in> set ?num \<longleftrightarrow> col \<in> set (pure_numeric_features b)"
    and cat: "col \<in> set ?cat \<longleftrightarrow> col \<in> set (categorical_features b)"
    using assms(3) by (auto simp: numeric_in_model_def categorical_in_model_def replace_missing_simps)
  let ?r2 = "\<lambda>c. if c \<in> set ?num then to_numeric_cell lib (replace_cell (r c)) else replace_cell (r c)"
  let ?r3 = "\<lambda>c. if c \<in> set ?num then imputed_cell (imputer_numeric b) (?r2 c) else ?r2 c"
  have r2: "?r2 \<in> set (rows ?t2)"
    using assms(2) by (auto simp: coerce_numeric_rows replace_missing_simps image_iff intro!: bexI[of _ r])
  have r3: "?r3 \<in> set (rows t3)"
    using r2 impute_rows[OF t3] by (auto simp: image_iff intro!: bexI[of _ ?r2])
  show "usable (imputer_numeric b)"
    if "col \<in> set (pure_numeric_features b)" "to_numeric_cell lib (replace_cell (r col)) = NaN"
    using impute_usable[OF t3 _ r2, of col] that num by simp
  show "usable (imputer_categorical b)"
    if "col \<in> set (categorical_features b)"
      "(if col \<in> set (pure_numeric_features b)
            then imputed_cell (imputer_numeric b) (to_numeric_cell lib (replace_cell (r col)))
            else replace_cell (r col)) = NaN"
    using impute_usable[OF t4 _ r3, of col] that num cat by (simp split: if_splits)
qed


lemma preprocessed_column_InrD:
  assumes "preprocessed_column lib b t col = Inr xs"
  obtains t1 where
    "set (best_features b) \<subseteq> set (kept_columns b t)"
    "preprocess lib b (select_columns t (kept_columns b t)) = Inr t1"
    "xs = map (\<lambda>r. preprocessed_cell lib b (kept_columns b t) col
                      (if col \<in> set (kept_columns b t) then r col else NaN)) (rows t)"
proof -
  from assms obtain t1 where
    m: "missing_cols b t = []" and
    p: "preprocess lib b (select_columns t (kept_columns b t)) = Inr t1" and
    x: "xs = column t1 col"
    by (auto simp: preprocessed_column_def keep_required_def split: sum.splits if_splits)
  from m have 1: "set (best_features b) \<subseteq> set (kept_columns b t)"
    by (auto simp: missing_cols_Nil in_kept_columns required_cols_def)
  from preprocess_rows(2)[OF p] x
  have "xs = map (\<lambda>r. preprocessed_cell lib b (kept_columns b t) col
                      (if col \<in> set (kept_columns b t) then r col else NaN)) (rows t)"
    by (simp add: column_def select_columns_simps o_def)
  with 1 p show ?thesis by (rule that)
qed

section \<open>No selected feature is left missing, for a bundle that lists every feature\<close>

text \<open>
  C3, as amended. Let every selected feature be listed in \<open>pure_numeric_features\<close> or in
  \<open>categorical_features\<close>, or have a manual mapping, or be \<open>ECOG_Score\<close>. Then, when the
  preprocessing stage completes, no cell of a selected column is missing in the frame
  that is handed to the hazard model.
\<close>

theorem selected_features_populated:
  assumes "set (best_features b) \<subseteq>
             set (pure_numeric_features b) \<union> set (categorical_features b) \<union>
             fst ` set (manual_mappings b) \<union> {''ECOG_Score''}"
    and "col \<in> set (best_features b)"
    and "preprocessed_column lib b t col = Inr xs"
  shows "NaN \<notin> set xs"
proof -
  let ?kept = "kept_columns b t"
  let ?t0 = "select_columns t ?kept"
  from assms(3) obtain t1 where
    sub: "set (best_features b) \<subseteq> set ?kept" and
    p: "preprocess lib b ?t0 = Inr t1" and
    xs: "xs = map (\<lambda>r. preprocessed_cell lib b ?kept col
                      (if col \<in> set ?kept then r col else NaN)) (rows t)"
    by (rule preprocessed_column_InrD)
  from sub assms(2) have kept: "col \<in> set ?kept" by auto
  have "preprocessed_cell lib b ?kept col (r col) \<noteq> NaN" if r: "r \<in> set (rows t)" for r
  proof -
    let ?r0 = "\<lambda>c. if c \<in> set ?kept then r c else NaN"
    have r0: "?r0 \<in> set (rows ?t0)" using r by (auto simp: select_columns_simps)
    have c0: "col \<in> set (columns ?t0)" using kept by (simp add: select_columns_simps)
    note u = preprocess_usable[OF p r0 c0]
    let ?x1 = "replace_cell (r col)"
    let ?x2 = "if col \<in> set (pure_numeric_features b) then to_numeric_cell lib ?x1 else ?x1"
    let ?x3 = "if col \<in> set (pure_numeric_features b) then imputed_cell (imputer_numeric b) ?x2 else ?x2"
    let ?x4 = "if col \<in> set (categorical_features b) then imputed_cell (imputer_categorical b) ?x3 else ?x3"
    have x3: "?x3 \<noteq> NaN" if "col \<in> set (pure_numeric_features b)"
    proof (cases "to_numeric_cell lib ?x1 = NaN")
      case True
      with u(1) that kept have "usable (imputer_numeric b)" by simp
      with that show ?thesis by (simp add: imputed_cell_usable)
    next
      case False
      with that show ?thesis by (simp add: imputed_cell_present)
    qed
    have x4: "?x4 \<noteq> NaN"
      if "col \<in> set (pure_numeric_features b) \<or> col \<in> set (categorical_features b)"
    proof (cases "col \<in> set (categorical_features b)")
      case True
      show ?thesis
      proof (cases "?x3 = NaN")
        case nan: True
        with u(2) True kept have "usable (imputer_categorical b)" by (simp split: if_splits)
        with True show ?thesis by (simp add: imputed_cell_usable)
      next
        case False
        with True imputed_cell_present[OF False, of "imputer_categorical b"] show ?thesis
          by simp
      qed
    next
      case False
      with that x3 show ?thesis by auto
    qed
    show ?thesis
    proof (cases "col = ''ECOG_Score''")
      case True
      with kept ecog_cell_numeric show ?thesis
        by (simp add: preprocessed_cell_def Let_def) (metis cell.distinct(1))
    next
      case notecog: False
      show ?thesis
      proof (cases "map_of (manual_mappings b) col")
        case None
        then have "col \<notin> fst ` set (manual_mappings b)" by (simp add: map_of_eq_None_iff)
        with assms(1,2) notecog
        have "col \<in> set (pure_numeric_features b) \<or> col \<in> set (categorical_features b)" by auto
        from x4[OF this] None notecog kept show ?thesis
          by (simp add: preprocessed_cell_def Let_def)
      next
        case (Some mapping)
        with notecog kept mapped_cell_numeric show ?thesis
          by (simp add: preprocessed_cell_def Let_def) (metis cell.distinct(1))
      qed
    qed
  qed
  with kept have "\<forall>x \<in> set xs. x \<noteq> NaN" by (simp add: xs)
  then show ?thesis by blast
qed

theorem selected_features_populated_witness:
  "preprocessed_column ex_library ex_components ex_table ''Age'' = Inr [Num 50, Num 60, Num 70] \<and>
   NaN \<notin> set [Num 50, Num 60, Num 70 :: cell]"
proof -
  have 1: "preprocessed_column ex_library ex_components ex_table ''Age'' = Inr [Num 50, Num 60, Num 70]"
    by (simp add: preprocessed_column_def ex_defs stage_defs)
  have "set (best_features ex_components) \<subseteq>
             set (pure_numeric_features ex_components) \<union> set (categorical_features ex_components) \<union>
             fst ` set (manual_mappings ex_components) \<union> {''ECOG_Score''}"
    and "''Age'' \<in> set (best_features ex_components)"
    by (simp_all add: ex_components_def)
  from selected_features_populated[OF this 1] 1 show ?thesis by simp
qed

text \<open>
  C3 as stated fails: the script fills only the columns that the bundle lists. With
  \<open>Age\<close> selected but in none of the lists, the missing age of the second patient
  reaches the hazard model as it is.
\<close>

theorem selected_feature_left_missing:
  "preprocessed_column ex_library (ex_components\<lparr>pure_numeric_features := []\<rparr>) ex_table ''Age''
     = Inr [Num 50, NaN, Str ''70''] \<and>
   ''Age'' \<in> set (best_features (ex_components\<lparr>pure_numeric_features := []\<rparr>))"
  by (simp add: preprocessed_column_def ex_defs stage_defs)


section \<open>The performance status\<close>




section \<open>One imputer, many columns\<close>

text \<open>
  C2. The loops hand the frame of one column to an imputer that fills by position. An
  imputer fitted on two numeric columns refuses the one-column frame, so the run ends
  with an error as soon as a numeric column has a missing entry, instead of filling it
  with that column's statistic.
\<close>

theorem imputer_fitted_on_two_columns_raises:
  "predict ex_library
     (ex_components\<lparr>pure_numeric_features := [''Age'', ''ECOG_Score''],
        imputer_numeric := \<lparr>feature_names_in = Some [''Age'', ''ECOG_Score''],
                             statistics = [Num 60, Num 1]\<rparr>\<rparr>)
     ex_table = Inl ImputerError"
  by (simp add: ex_defs stage_defs predict_def)

text \<open>
  An imputer fitted on a single column and without recorded labels accepts every one-column
  frame and fills each with its one statistic: the performance status gets the age.
\<close>

lemma imputer_fitted_on_one_column_fills_all:
  "preprocessed_column ex_library
     (ex_components\<lparr>pure_numeric_features := [''Age'', ''ECOG_Score''],
        imputer_numeric := \<lparr>feature_names_in = None, statistics = [Num 60]\<rparr>\<rparr>)
     ex_table ''ECOG_Score'' = Inr [Num 1, Num 60, Num 2]"
  by (simp add: preprocessed_column_def ex_defs stage_defs)

section \<open>Risk groups when quantile edges coincide\<close>

text \<open>
  C1. With three distinct scores of which the lowest fills the first tertile, two of the
  four bin edges coincide; \<^verbatim>\<open>duplicates='drop'\<close> drops one, and the three labels no longer
  fit the two bins that are left: \<^verbatim>\<open>pd.qcut\<close> raises. The same happens with two distinct
  scores whose median is one of them.
\<close>

theorem duplicate_bin_edges_raise:
  "risk_group (map Some [1, 1, 1, 2, 3]) = Inl BinLabelsError \<and>
   risk_group (map Some [1, 1, 2]) = Inl BinLabelsError"
  by (simp add: risk_group_def nunique_def qcut_def quantile_def unique_def Let_def upt_rec)

text \<open>The three examples of the specification, and the case of a single distinct score.\<close>

lemma risk_group_examples:
  "risk_group (map Some [1, 2, 3, 4, 5, 6]) =
     Inr (map Str [''Low'', ''Low'', ''Medium'', ''Medium'', ''High'', ''High''])"
  "risk_group (map Some [5, 5]) = Inr (map Str [''Medium'', ''Medium''])"
  "risk_group (map Some [1, 2]) = Inr (map Str [''Low'', ''High''])"
  by (simp_all add: risk_group_def nunique_def qcut_def quantile_def unique_def Let_def upt_rec)

lemma risk_group_one_value:
  "nunique x \<le> 1 \<Longrightarrow> risk_group x = Inr (replicate (length x) (Str ''Medium''))"
  by (simp add: risk_group_def Let_def)

section \<open>Two runs on the same files\<close>



end
